theory Spec2Isabelle
  imports Complex_Main "HOL-Library.Word"
begin

section \<open>The audio recorder of \<^verbatim>\<open>src/utils/audio_recorder.py\<close>\<close>

text \<open>
  The class \<^verbatim>\<open>AudioRecorder\<close> is embedded as a record of its attributes together with
  the part of the outside world its methods act on: the temporary files written by
  \<^verbatim>\<open>_save_recording\<close> and the calls made on the PyAudio objects. Everything the methods
  obtain from outside the repository (the clock, PyAudio, the file system, NumPy and SciPy
  results) is an explicit argument of the model, so that each method is a function of the
  recorder and of what the environment answered.

  Numbers: Python's \<^verbatim>\<open>int\<close> counters are \<^typ>\<open>int\<close>; clock readings, volumes and the
  threshold, which Python holds as floats, are modelled in exact arithmetic over
  \<^typ>\<open>real\<close>.
\<close>

subsection \<open>Data\<close>

type_synonym byte = "8 word"

text \<open>A block is the byte string returned by one \<^verbatim>\<open>stream.read\<close>.\<close>

type_synonym block = "byte list"

text \<open>The exceptions the code distinguishes: \<^verbatim>\<open>IOError\<close> has a handler of its own in the
  listening loop, \<^verbatim>\<open>UnboundLocalError\<close> is what reading an unassigned local raises, and
  every other exception is caught as \<^verbatim>\<open>Exception\<close>.\<close>

datatype exn = IOError | UnboundLocalError | OtherException

text \<open>A statement sequence either runs to its end or raises; in both cases the attribute
  writes made so far persist, so both carry the state.\<close>

datatype 'a outcome = Returns 'a | Raises exn 'a

definition then_do :: "'a outcome \<Rightarrow> ('a \<Rightarrow> 'a outcome) \<Rightarrow> 'a outcome" where
  "then_do m f = (case m of Returns s \<Rightarrow> f s | Raises e s \<Rightarrow> Raises e s)"

definition try_except :: "'a outcome \<Rightarrow> (exn \<Rightarrow> 'a \<Rightarrow> 'a outcome) \<Rightarrow> 'a outcome" where
  "try_except body handler = (case body of Returns s \<Rightarrow> Returns s | Raises e s \<Rightarrow> handler e s)"

text \<open>The container written by the \<^verbatim>\<open>wave\<close> module: the header fields the code sets and
  the frame bytes.\<close>

record wav_file =
  nchannels :: nat
  sampwidth :: nat
  framerate :: nat
  wav_data :: "byte list"


text \<open>Calls on the PyAudio objects, named by the handle they are made on.\<close>

datatype dev_call =
    StreamStop nat
  | StreamClose nat
  | PaTerminate nat

text \<open>
  The attributes set by \<^verbatim>\<open>__init__\<close>. \<^verbatim>\<open>self.p\<close> and \<^verbatim>\<open>self.stream\<close> are \<^verbatim>\<open>None\<close> or an
  object, here the object's handle. \<^verbatim>\<open>format\<close> is held as the sample size in bytes that
  \<^verbatim>\<open>get_sample_size\<close> returns for it (2 for \<^verbatim>\<open>paInt16\<close>). The last two fields are the
  environment: the temporary directory and the log of device calls.
\<close>

record recorder =
  threshold :: real
  chunk_size :: nat
  format_width :: nat
  channels :: nat
  rate :: nat
  recording_interval :: real
  p :: "nat option"
  stream :: "nat option"
  frames :: "block list"
  is_recording :: bool
  audio_queue :: "string list"
  running :: bool
  noise_floor :: real
  noise_calibration_samples :: "int list"
  calibration_period :: real
  is_calibrated :: bool
  last_recording_time :: real
  speech_frames_threshold :: int
  consecutive_speech_frames :: int
  files :: "string \<rightharpoonup> wav_file"
  dev_calls :: "dev_call list"

definition init :: "real \<Rightarrow> nat \<Rightarrow> nat \<Rightarrow> nat \<Rightarrow> nat \<Rightarrow> real \<Rightarrow> recorder" where
  "init threshold0 chunk_size0 format0 channels0 rate0 recording_interval0 =
     \<lparr> threshold = threshold0, chunk_size = chunk_size0, format_width = format0,
       channels = channels0, rate = rate0, recording_interval = recording_interval0,
       p = None, stream = None, frames = [], is_recording = False, audio_queue = [],
       running = True, noise_floor = 0, noise_calibration_samples = [],
       calibration_period = 3, is_calibrated = False, last_recording_time = 0,
       speech_frames_threshold = 3, consecutive_speech_frames = 0,
       files = Map.empty, dev_calls = [] \<rparr>"

text \<open>The constructor's default arguments.\<close>

definition default_recorder :: recorder where
  "default_recorder = init 6000 1024 2 1 44100 10"

subsection \<open>Speech detection (lines 171--177 of \<^verbatim>\<open>_listen_and_record\<close>)\<close>

text \<open>One block's volume is compared with the threshold. The boolean is whether the
  ``Speech detected'' line is printed for this block.\<close>

definition detect :: "real \<Rightarrow> recorder \<Rightarrow> bool \<times> recorder" where
  "detect volume st =
     (if volume > threshold st then
        (let st' = st\<lparr>consecutive_speech_frames := consecutive_speech_frames st + 1\<rparr>
         in (consecutive_speech_frames st' = speech_frames_threshold st', st'))
      else (False, st\<lparr>consecutive_speech_frames := 0\<rparr>))"

text \<open>The detector over the successive blocks that reach it.\<close>

fun observe_all :: "real list \<Rightarrow> recorder \<Rightarrow> bool list \<times> recorder" where
  "observe_all [] st = ([], st)"
| "observe_all (v # vs) st =
     (case detect v st of (fired, st') \<Rightarrow>
        (case observe_all vs st' of (rest, st'') \<Rightarrow> (fired # rest, st'')))"

text \<open>The length of the run of above-threshold volumes that ends the sequence.\<close>

definition trailing_run :: "real \<Rightarrow> real list \<Rightarrow> nat" where
  "trailing_run thr vs = length (takeWhile (\<lambda>v. v > thr) (rev vs))"

subsection \<open>Saving a segment (\<^verbatim>\<open>_save_recording\<close>)\<close>

text \<open>
  What the file system answers: creating the temporary file fails; the file \<open>name\<close> is
  created and a later \<^verbatim>\<open>wave\<close> call fails; or every call succeeds.
\<close>

datatype save_env = TempFileFails | WriteFails string | WriteOk string

text \<open>
  The state inside the function is the recorder and the local \<^verbatim>\<open>temp_file\<close>, unassigned
  (\<open>None\<close>) until \<^verbatim>\<open>NamedTemporaryFile\<close> has returned. The handler reads
  \<^verbatim>\<open>temp_file.name\<close>: with the local unassigned this raises, and the exception leaves the
  function; otherwise the file is unlinked. \<^verbatim>\<open>self.p.get_sample_size\<close> raises when
  \<^verbatim>\<open>self.p\<close> is \<^verbatim>\<open>None\<close>.
\<close>

definition save_recording :: "save_env \<Rightarrow> block list \<Rightarrow> recorder \<Rightarrow> recorder outcome" where
  "save_recording env frames_arg st =
     (case
        try_except
          (then_do
             (case env of
                TempFileFails \<Rightarrow> Raises OtherException (st, None)
              | WriteFails name \<Rightarrow> Returns (st, Some name)
              | WriteOk name \<Rightarrow> Returns (st, Some name))
             (\<lambda>(s, temp_file).
                case env of
                  TempFileFails \<Rightarrow> Raises OtherException (s, temp_file)
                | WriteFails name \<Rightarrow> Raises OtherException (s, temp_file)
                | WriteOk name \<Rightarrow>
                    (case p s of
                       None \<Rightarrow> Raises OtherException (s, temp_file)
                     | Some pa \<Rightarrow>
                         Returns
                           (s\<lparr>files := (files s)(name \<mapsto>
                                 \<lparr>nchannels = channels s, sampwidth = format_width s,
                                  framerate = rate s, wav_data = concat frames_arg\<rparr>),
                              audio_queue := audio_queue s @ [name]\<rparr>,
                            temp_file))))
          (\<lambda>e (s, temp_file).
             case temp_file of
               None \<Rightarrow> Raises UnboundLocalError (s, temp_file)
             | Some name \<Rightarrow> Returns (s\<lparr>files := (files s)(name := None)\<rparr>, temp_file))
      of Returns (s, temp_file) \<Rightarrow> Returns s
       | Raises e (s, temp_file) \<Rightarrow> Raises e s)"

subsection \<open>The listening loop (\<^verbatim>\<open>_listen_and_record\<close>)\<close>

text \<open>The locals of the function that live across iterations.\<close>

record locals =
  temp_frames :: "block list"
  record_start_time :: real

text \<open>Lines 133--140: the wait for \<^verbatim>\<open>is_calibrated\<close>, then the initialisation with two
  clock readings. \<open>None\<close> is another round of the wait loop.\<close>

definition listen_enter :: "real \<Rightarrow> real \<Rightarrow> recorder \<Rightarrow> (recorder \<times> locals) option" where
  "listen_enter t1 t2 st =
     (if \<not> is_calibrated st then None
      else Some (st\<lparr>last_recording_time := t1\<rparr>,
                 \<lparr>temp_frames = [], record_start_time = t2\<rparr>))"

text \<open>Lines 147--157: the interval check with the flush and the reset.\<close>

definition interval_check ::
  "real \<Rightarrow> save_env \<Rightarrow> recorder \<times> locals \<Rightarrow> (recorder \<times> locals) outcome" where
  "interval_check current_time env = (\<lambda>(st, lv).
     if current_time - last_recording_time st \<ge> recording_interval st then
       then_do
         (if length (temp_frames lv) > 0 then
            (case save_recording env (temp_frames lv) st of
               Returns s \<Rightarrow> Returns (s, lv)
             | Raises e s \<Rightarrow> Raises e (s, lv))
          else Returns (st, lv))
         (\<lambda>(s, l). Returns (s\<lparr>last_recording_time := current_time\<rparr>,
                             l\<lparr>temp_frames := [], record_start_time := current_time\<rparr>))
     else Returns (st, lv))"

text \<open>
  What the device and the filter answer in one iteration: the stream is not active; the
  read (or \<^verbatim>\<open>is_active\<close>) raises; or a block is read, and then \<^verbatim>\<open>_filter_audio\<close> and
  \<^verbatim>\<open>np.max(np.abs(...))\<close> either raise or give the block's peak volume.
\<close>

datatype filter_env = FilterFails exn | Peak real

datatype read_env = StreamInactive | ReadFails exn | ReadOk block filter_env

text \<open>Lines 160--177. The boolean is whether speech was reported in this iteration.\<close>

definition read_and_detect ::
  "read_env \<Rightarrow> recorder \<times> locals \<Rightarrow> (bool \<times> recorder \<times> locals) outcome" where
  "read_and_detect env = (\<lambda>(st, lv).
     case stream st of
       None \<Rightarrow> Returns (False, st, lv)
     | Some sid \<Rightarrow>
         (case env of
            StreamInactive \<Rightarrow> Returns (False, st, lv)
          | ReadFails e \<Rightarrow> Raises e (False, st, lv)
          | ReadOk data flt \<Rightarrow>
              (let lv' = lv\<lparr>temp_frames := temp_frames lv @ [data]\<rparr> in
               case flt of
                 FilterFails e \<Rightarrow> Raises e (False, st, lv')
               | Peak volume \<Rightarrow>
                   (case detect volume st of (fired, st') \<Rightarrow> Returns (fired, st', lv')))))"

text \<open>One iteration of the loop body, lines 143--186: both handlers log, sleep and let the
  loop go on.\<close>

definition listen_iteration ::
  "real \<Rightarrow> save_env \<Rightarrow> read_env \<Rightarrow> recorder \<times> locals \<Rightarrow> (bool \<times> recorder \<times> locals) outcome" where
  "listen_iteration current_time senv renv ls =
     try_except
       (case interval_check current_time senv ls of
          Raises e (s, l) \<Rightarrow> Raises e (False, s, l)
        | Returns (s, l) \<Rightarrow> read_and_detect renv (s, l))
       (\<lambda>e x. case e of IOError \<Rightarrow> Returns x | _ \<Rightarrow> Returns x)"

subsection \<open>Calibration (\<^verbatim>\<open>_calibrate_noise\<close>)\<close>

text \<open>\<^verbatim>\<open>np.mean\<close> and \<^verbatim>\<open>np.std\<close> (the population standard deviation) of the samples, in
  exact arithmetic.\<close>

definition np_mean :: "int list \<Rightarrow> real" where
  "np_mean xs = real_of_int (sum_list xs) / real (length xs)"

definition np_std :: "int list \<Rightarrow> real" where
  "np_std xs = sqrt (sum_list (map (\<lambda>x. (real_of_int x - np_mean xs)\<^sup>2) xs) / real (length xs))"

text \<open>What the device answers in one calibration iteration; a sample is the block's peak
  \<^verbatim>\<open>np.max(np.abs(audio_data))\<close>, an \<^verbatim>\<open>int16\<close> value.\<close>

datatype cal_env = CalInactive | CalReadFails exn | CalSample int

text \<open>Lines 83--91.\<close>

definition calibrate_iteration :: "cal_env \<Rightarrow> recorder \<Rightarrow> recorder outcome" where
  "calibrate_iteration env st =
     try_except
       (case stream st of
          None \<Rightarrow> Returns st
        | Some sid \<Rightarrow>
            (case env of
               CalInactive \<Rightarrow> Returns st
             | CalReadFails e \<Rightarrow> Raises e st
             | CalSample volume \<Rightarrow>
                 Returns (st\<lparr>noise_calibration_samples :=
                               noise_calibration_samples st @ [volume]\<rparr>)))
       (\<lambda>e s. Returns s)"

text \<open>
  Lines 82--91: the loop runs while the clock reading is within the calibration period of
  the start time. Each element of the list is one evaluation of the loop condition (the
  clock reading) with the device's answer for the body. \<open>None\<close>: the readings given never
  leave the period.
\<close>

fun calibrate_loop :: "real \<Rightarrow> (real \<times> cal_env) list \<Rightarrow> recorder \<Rightarrow> recorder outcome option" where
  "calibrate_loop start_time [] st = None"
| "calibrate_loop start_time ((now, env) # rest) st =
     (if now - start_time < calibration_period st then
        (case calibrate_iteration env st of
           Returns s \<Rightarrow> calibrate_loop start_time rest s
         | Raises e s \<Rightarrow> Some (Raises e s))
      else Some (Returns st))"

text \<open>The threads of the program: a calibration thread before and after it has read its
  start time, a listening thread in its wait loop and in its capture loop, and a thread
  that has ended.\<close>

datatype thread =
    CalibratorNew
  | Calibrator real
  | ListenerWaiting
  | ListenerCapturing locals
  | Exited

text \<open>Lines 93--112: the noise floor, the threshold, the flag, and the listening thread that
  is started.\<close>

definition calibrate_finish :: "recorder \<Rightarrow> recorder \<times> thread list" where
  "calibrate_finish st =
     (let st1 =
        (if noise_calibration_samples st \<noteq> [] then
           (let mean_noise = np_mean (noise_calibration_samples st);
                std_noise = np_std (noise_calibration_samples st);
                st' = st\<lparr>noise_floor := mean_noise + 2 * std_noise\<rparr>
            in st'\<lparr>threshold := max (threshold st') (noise_floor st' * 1.5)\<rparr>)
         else st)
      in (st1\<lparr>is_calibrated := True\<rparr>, [ListenerWaiting]))"

text \<open>The whole of \<^verbatim>\<open>_calibrate_noise\<close> from its start time on.\<close>

definition calibrate_noise ::
  "real \<Rightarrow> (real \<times> cal_env) list \<Rightarrow> recorder \<Rightarrow> (recorder \<times> thread list) outcome option" where
  "calibrate_noise start_time ticks st =
     (case calibrate_loop start_time ticks st of
        None \<Rightarrow> None
      | Some (Raises e s) \<Rightarrow> Some (Raises e (s, []))
      | Some (Returns s) \<Rightarrow> Some (Returns (calibrate_finish s)))"

subsection \<open>Starting and stopping\<close>

text \<open>
  What PyAudio answers to \<^verbatim>\<open>start_listening\<close>: the constructor raises; the device query
  raises; \<^verbatim>\<open>open\<close> raises; \<^verbatim>\<open>start_stream\<close> raises; starting the thread raises; or all
  succeed. The numbers are the handles of the PyAudio object and of the stream.
\<close>

datatype start_env =
    PyAudioFails
  | DeviceInfoFails nat
  | OpenFails nat
  | StartStreamFails nat nat
  | ThreadStartFails nat nat
  | StartOk nat nat

text \<open>A call on a device object: it is logged, and raises when the device says so.\<close>

definition device_call :: "dev_call \<Rightarrow> bool \<Rightarrow> recorder \<Rightarrow> recorder outcome" where
  "device_call c raises st =
     (let st' = st\<lparr>dev_calls := dev_calls st @ [c]\<rparr>
      in if raises then Raises OtherException st' else Returns st')"

text \<open>
  \<^verbatim>\<open>start_listening\<close>, with the threads it starts. The handler's \<^verbatim>\<open>self.p.terminate()\<close> is
  outside any \<^verbatim>\<open>try\<close>: \<open>terminate_raises\<close> says whether it raises.
\<close>

definition start_listening ::
  "start_env \<Rightarrow> bool \<Rightarrow> recorder \<Rightarrow> (recorder \<times> thread list) outcome" where
  "start_listening env terminate_raises st =
     try_except
       (case env of
          PyAudioFails \<Rightarrow> Raises OtherException (st, [])
        | DeviceInfoFails pa \<Rightarrow> Raises OtherException (st\<lparr>p := Some pa\<rparr>, [])
        | OpenFails pa \<Rightarrow> Raises OtherException (st\<lparr>p := Some pa\<rparr>, [])
        | StartStreamFails pa sid \<Rightarrow>
            Raises OtherException (st\<lparr>p := Some pa, stream := Some sid\<rparr>, [])
        | ThreadStartFails pa sid \<Rightarrow>
            Raises OtherException (st\<lparr>p := Some pa, stream := Some sid\<rparr>, [])
        | StartOk pa sid \<Rightarrow>
            Returns (st\<lparr>p := Some pa, stream := Some sid\<rparr>, [CalibratorNew]))
       (\<lambda>e (s, started).
          case p s of
            None \<Rightarrow> Returns (s, started)
          | Some pa \<Rightarrow>
              (case device_call (PaTerminate pa) terminate_raises s of
                 Returns s' \<Rightarrow> Returns (s', started)
               | Raises e' s' \<Rightarrow> Raises e' (s', started)))"

text \<open>What the device answers to the three calls of \<^verbatim>\<open>stop\<close>.\<close>

record stop_env =
  stop_stream_raises :: bool
  close_raises :: bool
  terminate_raises :: bool

text \<open>\<^verbatim>\<open>stop\<close>, in its two parts: line 212, and after the sleep lines 215--226.\<close>

definition stop_signal :: "recorder \<Rightarrow> recorder outcome" where
  "stop_signal st = Returns (st\<lparr>running := False\<rparr>)"

definition stop_release :: "stop_env \<Rightarrow> recorder \<Rightarrow> recorder outcome" where
  "stop_release env st =
     then_do
       (case stream st of
          None \<Rightarrow> Returns st
        | Some sid \<Rightarrow>
            try_except
              (then_do (device_call (StreamStop sid) (stop_stream_raises env) st)
                       (device_call (StreamClose sid) (close_raises env)))
              (\<lambda>e s. Returns s))
       (\<lambda>s. case p s of
               None \<Rightarrow> Returns s
             | Some pa \<Rightarrow>
                 try_except (device_call (PaTerminate pa) (terminate_raises env) s)
                            (\<lambda>e s'. Returns s'))"

definition stop :: "stop_env \<Rightarrow> recorder \<Rightarrow> recorder outcome" where
  "stop env st = then_do (stop_signal st) (stop_release env)"

text \<open>The state an outcome carries, and the number of \<^verbatim>\<open>close\<close> calls made on a stream.\<close>

fun state_of :: "'a outcome \<Rightarrow> 'a" where
  "state_of (Returns s) = s"
| "state_of (Raises e s) = s"

fun raised :: "'a outcome \<Rightarrow> bool" where
  "raised (Returns s) = False"
| "raised (Raises e s) = True"

definition close_calls :: "nat \<Rightarrow> recorder \<Rightarrow> nat" where
  "close_calls sid st = count_list (dev_calls st) (StreamClose sid)"

subsection \<open>The threads together\<close>

text \<open>
  The recorder is shared by the caller's thread, the calibration thread and the listening
  thread. An event is one step of one of them, with what the environment answers to it;
  \<open>i\<close> is the index of the thread that steps. A step is one loop iteration or one method
  call, taken whole. \<open>None\<close>: the event is not a step the thread can take.
\<close>

datatype event =
    EvStart start_env bool
  | EvCalBegin nat real
  | EvCalTick nat real cal_env
  | EvListenPoll nat real real
  | EvListenTick nat real save_env read_env
  | EvStopSignal
  | EvStopRelease stop_env

type_synonym system = "recorder \<times> thread list"

fun sys_step :: "event \<Rightarrow> system \<Rightarrow> system option" where
  "sys_step (EvStart env tr) (st, ths) =
     (case state_of (start_listening env tr st) of (s, started) \<Rightarrow> Some (s, ths @ started))"
| "sys_step (EvCalBegin i start_time) (st, ths) =
     (if i < length ths \<and> ths ! i = CalibratorNew
      then Some (st, ths[i := Calibrator start_time]) else None)"
| "sys_step (EvCalTick i now env) (st, ths) =
     (if i < length ths then
        (case ths ! i of
           Calibrator start_time \<Rightarrow>
             (if now - start_time < calibration_period st then
                (case calibrate_iteration env st of
                   Returns s \<Rightarrow> Some (s, ths)
                 | Raises e s \<Rightarrow> Some (s, ths[i := Exited]))
              else
                (case calibrate_finish st of (s, started) \<Rightarrow>
                   Some (s, ths[i := Exited] @ started)))
         | _ \<Rightarrow> None)
      else None)"
| "sys_step (EvListenPoll i t1 t2) (st, ths) =
     (if i < length ths \<and> ths ! i = ListenerWaiting then
        (case listen_enter t1 t2 st of
           None \<Rightarrow> Some (st, ths)
         | Some (s, lv) \<Rightarrow> Some (s, ths[i := ListenerCapturing lv]))
      else None)"
| "sys_step (EvListenTick i now senv renv) (st, ths) =
     (if i < length ths then
        (case ths ! i of
           ListenerCapturing lv \<Rightarrow>
             (if running st then
                (case listen_iteration now senv renv (st, lv) of
                   Returns (fired, s, l) \<Rightarrow> Some (s, ths[i := ListenerCapturing l])
                 | Raises e (fired, s, l) \<Rightarrow> Some (s, ths[i := Exited]))
              else Some (st, ths[i := Exited]))
         | _ \<Rightarrow> None)
      else None)"
| "sys_step EvStopSignal (st, ths) = Some (state_of (stop_signal st), ths)"
| "sys_step (EvStopRelease env) (st, ths) = Some (state_of (stop_release env st), ths)"

fun run :: "event list \<Rightarrow> system \<Rightarrow> system option" where
  "run [] sys = Some sys"
| "run (ev # evs) sys = (case sys_step ev sys of None \<Rightarrow> None | Some sys' \<Rightarrow> run evs sys')"

text \<open>The step in which a calibration thread leaves its loop and runs lines 93--112.\<close>

fun finishes_calibration :: "event \<Rightarrow> system \<Rightarrow> bool" where
  "finishes_calibration (EvCalTick i now env) (st, ths) =
     (i < length ths \<and>
      (case ths ! i of
         Calibrator start_time \<Rightarrow> \<not> now - start_time < calibration_period st
       | _ \<Rightarrow> False))"
| "finishes_calibration ev sys = False"

definition capturing :: "thread \<Rightarrow> bool" where
  "capturing th = (case th of ListenerCapturing lv \<Rightarrow> True | _ \<Rightarrow> False)"

subsection \<open>Derived notions\<close>


text \<open>A recorder built with the default arguments on which \<^verbatim>\<open>start_listening\<close> has
  succeeded, with PyAudio handle 1 and stream handle 2.\<close>

definition started_recorder :: recorder where
  "started_recorder = fst (state_of (start_listening (StartOk 1 2) False default_recorder))"

section \<open>The speech detector\<close>

lemma detect_frame:
  "threshold (snd (detect v st)) = threshold st"
  "speech_frames_threshold (snd (detect v st)) = speech_frames_threshold st"
  by (simp_all add: detect_def Let_def)

lemma observe_all_frame:
  "threshold (snd (observe_all vs st)) = threshold st \<and>
   speech_frames_threshold (snd (observe_all vs st)) = speech_frames_threshold st"
proof (induction vs arbitrary: st)
  case Nil
  show ?case by simp
next
  case (Cons v vs)
  obtain f s1 where d: "detect v st = (f, s1)" by (cases "detect v st")
  obtain r s2 where o: "observe_all vs s1 = (r, s2)" by (cases "observe_all vs s1")
  from Cons.IH [of s1] o have "threshold s2 = threshold s1 \<and> speech_frames_threshold s2 = speech_frames_threshold s1"
    by simp
  moreover from detect_frame [of v st] d
  have "threshold s1 = threshold st \<and> speech_frames_threshold s1 = speech_frames_threshold st" by simp
  ultimately show ?case using d o by simp
qed

lemma observe_all_Cons:
  "observe_all (v # vs) st =
     (fst (detect v st) # fst (observe_all vs (snd (detect v st))),
      snd (observe_all vs (snd (detect v st))))"
  by (simp split: prod.splits)

lemma observe_all_length: "length (fst (observe_all vs st)) = length vs"
  by (induction vs arbitrary: st) (simp_all only: observe_all_Cons observe_all.simps fst_conv list.size)

lemma observe_all_append:
  "observe_all (vs @ ws) st =
     (case observe_all vs st of (f1, s1) \<Rightarrow>
        (case observe_all ws s1 of (f2, s2) \<Rightarrow> (f1 @ f2, s2)))"
  by (induction vs arbitrary: st) (auto split: prod.splits)

lemma trailing_run_snoc:
  "trailing_run thr (vs @ [v]) = (if v > thr then Suc (trailing_run thr vs) else 0)"
  by (simp add: trailing_run_def)

lemma observe_all_snoc:
  "observe_all (vs @ [v]) st =
     (fst (observe_all vs st) @ [fst (detect v (snd (observe_all vs st)))],
      snd (detect v (snd (observe_all vs st))))"
  by (simp add: observe_all_append split: prod.splits)

lemma counter_is_trailing_run:
  "consecutive_speech_frames st = 0 \<Longrightarrow>
   consecutive_speech_frames (snd (observe_all vs st)) = int (trailing_run (threshold st) vs)"
proof (induction vs rule: rev_induct)
  case Nil
  then show ?case by (simp add: trailing_run_def)
next
  case (snoc v vs)
  then show ?case
    using observe_all_frame [of vs st]
    by (simp add: observe_all_snoc trailing_run_snoc detect_def Let_def)
qed

lemma fired_snoc:
  "consecutive_speech_frames st = 0 \<Longrightarrow>
   fst (detect v (snd (observe_all vs st))) \<longleftrightarrow>
     (v > threshold st \<and> int (trailing_run (threshold st) (vs @ [v])) = speech_frames_threshold st)"
  using observe_all_frame [of vs st] counter_is_trailing_run [of st vs]
  by (auto simp add: trailing_run_snoc detect_def Let_def)

lemma observe_all_take:
  "i \<le> length vs \<Longrightarrow> fst (observe_all (take i vs) st) = take i (fst (observe_all vs st))"
proof -
  assume "i \<le> length vs"
  have "observe_all vs st = observe_all (take i vs @ drop i vs) st" by simp
  also have "fst \<dots> = fst (observe_all (take i vs) st) @ fst (observe_all (drop i vs) (snd (observe_all (take i vs) st)))"
    unfolding observe_all_append by (simp split: prod.splits)
  finally show ?thesis using \<open>i \<le> length vs\<close> by (simp add: observe_all_length)
qed

lemma fired_nth:
  assumes "consecutive_speech_frames st = 0" "i < length vs"
  shows "fst (observe_all vs st) ! i \<longleftrightarrow>
     (vs ! i > threshold st \<and> int (trailing_run (threshold st) (take (Suc i) vs)) = speech_frames_threshold st)"
proof -
  have t: "take (Suc i) vs = take i vs @ [vs ! i]" using assms(2) by (simp add: take_Suc_conv_app_nth)
  have "fst (observe_all vs st) ! i = take (Suc i) (fst (observe_all vs st)) ! i" by simp
  also have "\<dots> = fst (observe_all (take (Suc i) vs) st) ! i"
    using assms(2) by (simp add: observe_all_take)
  also have "\<dots> = fst (detect (vs ! i) (snd (observe_all (take i vs) st)))"
    using assms(2) unfolding t observe_all_snoc by (simp add: nth_append observe_all_length)
  finally show ?thesis using fired_snoc [OF assms(1), of "vs ! i" "take i vs"] t by simp
qed

lemma trailing_run_all:
  "\<forall>v\<in>set vs. v > thr \<Longrightarrow> trailing_run thr vs = length vs"
proof -
  assume "\<forall>v\<in>set vs. v > thr"
  then have "takeWhile (\<lambda>v. v > thr) (rev vs) = rev vs"
    by (intro takeWhile_eq_all_conv [THEN iffD2]) simp
  then have "length (takeWhile (\<lambda>v. v > thr) (rev vs)) = length (rev vs)"
    by (rule arg_cong)
  then show ?thesis by (simp add: trailing_run_def)
qed

text \<open>
  Claim C2. For every sequence of observed blocks, speech is reported exactly on the block
  where the counter of consecutive above-threshold blocks reaches
  \<^verbatim>\<open>speech_frames_threshold\<close>: a single block reports exactly when it is above the
  threshold and the counter it leaves equals \<^verbatim>\<open>speech_frames_threshold\<close>; a
  below-threshold block leaves the counter at zero; from a counter of zero the counter after
  any sequence is the length of the above-threshold run that ends it, and block \<open>i\<close>
  reports exactly when it is above the threshold and the run ending at it has length
  \<^verbatim>\<open>speech_frames_threshold\<close>; and \<^verbatim>\<open>speech_frames_threshold - 1\<close> above-threshold
  blocks followed by one below-threshold block report on no block.
\<close>

theorem speech_reported_exactly_at_threshold:
  "(fst (detect v st) \<longleftrightarrow>
      (v > threshold st \<and>
       consecutive_speech_frames (snd (detect v st)) = speech_frames_threshold st))
   \<and> (\<not> v > threshold st \<longrightarrow> consecutive_speech_frames (snd (detect v st)) = 0)
   \<and> (consecutive_speech_frames st = 0 \<longrightarrow>
        consecutive_speech_frames (snd (observe_all vs st)) = int (trailing_run (threshold st) vs)
        \<and> (\<forall>i<length vs. fst (observe_all vs st) ! i \<longleftrightarrow>
              (vs ! i > threshold st \<and>
               int (trailing_run (threshold st) (take (Suc i) vs)) = speech_frames_threshold st))
        \<and> ((\<forall>u\<in>set vs. u > threshold st) \<and> int (length vs) = speech_frames_threshold st - 1
              \<and> \<not> w > threshold st \<longrightarrow>
            fst (observe_all (vs @ [w]) st) = replicate (length vs + 1) False))"
proof (intro conjI impI allI)
  show "fst (detect v st) \<longleftrightarrow>
      (v > threshold st \<and>
       consecutive_speech_frames (snd (detect v st)) = speech_frames_threshold st)"
    by (simp add: detect_def Let_def)
  show "consecutive_speech_frames (snd (detect v st)) = 0" if "\<not> v > threshold st"
    using that by (simp add: detect_def)
  show "consecutive_speech_frames (snd (observe_all vs st)) = int (trailing_run (threshold st) vs)"
    if "consecutive_speech_frames st = 0"
    using that by (rule counter_is_trailing_run)
  show "fst (observe_all vs st) ! i \<longleftrightarrow>
              (vs ! i > threshold st \<and>
               int (trailing_run (threshold st) (take (Suc i) vs)) = speech_frames_threshold st)"
    if "consecutive_speech_frames st = 0" "i < length vs" for i
    using that by (rule fired_nth)
  show "fst (observe_all (vs @ [w]) st) = replicate (length vs + 1) False"
    if z: "consecutive_speech_frames st = 0"
    and h: "(\<forall>u\<in>set vs. u > threshold st) \<and> int (length vs) = speech_frames_threshold st - 1
              \<and> \<not> w > threshold st"
  proof (rule nth_equalityI)
    show "length (fst (observe_all (vs @ [w]) st)) = length (replicate (length vs + 1) False)"
      by (simp add: observe_all_length)
  next
    fix i assume "i < length (fst (observe_all (vs @ [w]) st))"
    then have i: "i < length (vs @ [w])" by (simp add: observe_all_length)
    have "\<not> fst (observe_all (vs @ [w]) st) ! i"
    proof (cases "i < length vs")
      case True
      then have "set (take (Suc i) vs) \<subseteq> set vs" by (simp add: set_take_subset)
      with h have "\<forall>u\<in>set (take (Suc i) vs). u > threshold st" by blast
      then have "trailing_run (threshold st) (take (Suc i) vs) = length (take (Suc i) vs)"
        by (rule trailing_run_all)
      with True h have "int (trailing_run (threshold st) (take (Suc i) (vs @ [w]))) \<noteq> speech_frames_threshold st"
        by simp
      then show ?thesis using fired_nth [OF z i] by simp
    next
      case False
      with i have "(vs @ [w]) ! i = w" by (simp add: nth_append less_Suc_eq)
      then show ?thesis using fired_nth [OF z i] h by simp
    qed
    moreover have "replicate (length vs + 1) False ! i = False"
      using i by (intro nth_replicate) simp
    ultimately show "fst (observe_all (vs @ [w]) st) ! i = replicate (length vs + 1) False ! i"
      by (simp only:)
  qed
qed

theorem speech_reported_exactly_at_threshold_witness:
  "consecutive_speech_frames default_recorder = 0 \<and>
   7000 > threshold default_recorder \<and>
   int (length [7000, 7000 :: real]) = speech_frames_threshold default_recorder - 1 \<and>
   \<not> 100 > threshold default_recorder \<and>
   consecutive_speech_frames (snd (detect 100 default_recorder)) = 0 \<and>
   fst (observe_all ([7000, 7000] @ [100]) default_recorder) = [False, False, False]"
proof -
  have h: "consecutive_speech_frames default_recorder = 0 \<and>
      (\<forall>u\<in>set [7000, 7000]. u > threshold default_recorder) \<and>
      int (length [7000, 7000 :: real]) = speech_frames_threshold default_recorder - 1 \<and>
      \<not> 100 > threshold default_recorder"
    by (simp add: default_recorder_def init_def)
  from speech_reported_exactly_at_threshold [of 100 default_recorder "[7000, 7000]" 100] h
  have "consecutive_speech_frames (snd (detect 100 default_recorder)) = 0 \<and>
        fst (observe_all ([7000, 7000] @ [100]) default_recorder) = replicate (length [7000, 7000 :: real] + 1) False"
    by blast
  with h show ?thesis by (simp add: numeral_3_eq_3 default_recorder_def init_def)
qed

text \<open>
  Claim C10. Within a run of \<open>k \<ge> speech_frames_threshold\<close> consecutive above-threshold
  blocks that starts with the counter at zero, speech is reported exactly once: on block
  number \<^verbatim>\<open>speech_frames_threshold\<close> of the run, and on no block before or after it.
\<close>

theorem speech_reported_once_per_run:
  assumes "consecutive_speech_frames st = 0"
    and "1 \<le> speech_frames_threshold st"
    and "\<forall>v\<in>set vs. v > threshold st"
    and "speech_frames_threshold st \<le> int (length vs)"
  shows "fst (observe_all vs st) =
           replicate (nat (speech_frames_threshold st) - 1) False @ [True] @
           replicate (length vs - nat (speech_frames_threshold st)) False"
proof (rule nth_equalityI)
  show "length (fst (observe_all vs st)) =
    length (replicate (nat (speech_frames_threshold st) - 1) False @ [True] @
           replicate (length vs - nat (speech_frames_threshold st)) False)"
    using assms(2,4) by (simp add: observe_all_length)
next
  fix i assume "i < length (fst (observe_all vs st))"
  then have i: "i < length vs" by (simp add: observe_all_length)
  have "set (take (Suc i) vs) \<subseteq> set vs" by (simp add: set_take_subset)
  with assms(3) have "\<forall>u\<in>set (take (Suc i) vs). u > threshold st" by blast
  then have "trailing_run (threshold st) (take (Suc i) vs) = length (take (Suc i) vs)"
    by (rule trailing_run_all)
  with i have r: "trailing_run (threshold st) (take (Suc i) vs) = Suc i" by simp
  have "fst (observe_all vs st) ! i \<longleftrightarrow> int (Suc i) = speech_frames_threshold st"
    using fired_nth [OF assms(1) i] assms(3) i r by simp
  also have "\<dots> \<longleftrightarrow> i = nat (speech_frames_threshold st) - 1"
    using assms(2) by auto
  finally show "fst (observe_all vs st) ! i =
     (replicate (nat (speech_frames_threshold st) - 1) False @ [True] @
           replicate (length vs - nat (speech_frames_threshold st)) False) ! i"
    using i assms(2,4) by (auto simp add: nth_append nth_Cons')
qed


theorem speech_reported_once_per_run_witness:
  "consecutive_speech_frames default_recorder = 0 \<and>
   1 \<le> speech_frames_threshold default_recorder \<and>
   7000 > threshold default_recorder \<and>
   speech_frames_threshold default_recorder \<le> int (length [7000, 8000, 9000, 9500, 7000 :: real]) \<and>
   fst (observe_all [7000, 8000, 9000, 9500, 7000] default_recorder) =
     [False, False, True, False, False]"
proof -
  have h: "consecutive_speech_frames default_recorder = 0"
      "1 \<le> speech_frames_threshold default_recorder"
      "\<forall>v\<in>set [7000, 8000, 9000, 9500, 7000]. v > threshold default_recorder"
      "speech_frames_threshold default_recorder \<le> int (length [7000, 8000, 9000, 9500, 7000 :: real])"
    by (simp_all add: default_recorder_def init_def)
  have "speech_frames_threshold default_recorder = 3"
    by (simp add: default_recorder_def init_def)
  with speech_reported_once_per_run [OF h] h show ?thesis
    by (simp add: numeral_2_eq_2 default_recorder_def init_def)
qed

section \<open>Segments: the interval check and the flush\<close>

lemma save_recording_cases:
  "save_recording TempFileFails fs st = Raises UnboundLocalError st"
  "save_recording (WriteFails name) fs st = Returns (st\<lparr>files := (files st)(name := None)\<rparr>)"
  "save_recording (WriteOk name) fs st =
     (case p st of
        None \<Rightarrow> Returns (st\<lparr>files := (files st)(name := None)\<rparr>)
      | Some pa \<Rightarrow>
          Returns (st\<lparr>files := (files st)(name \<mapsto>
                        \<lparr>nchannels = channels st, sampwidth = format_width st,
                         framerate = rate st, wav_data = concat fs\<rparr>),
                      audio_queue := audio_queue st @ [name]\<rparr>))"
  by (simp_all add: save_recording_def then_do_def try_except_def split: option.splits)

lemma save_recording_frame:
  "threshold (state_of (save_recording env fs st)) = threshold st"
  "noise_floor (state_of (save_recording env fs st)) = noise_floor st"
  "consecutive_speech_frames (state_of (save_recording env fs st)) = consecutive_speech_frames st"
  "speech_frames_threshold (state_of (save_recording env fs st)) = speech_frames_threshold st"
  "is_calibrated (state_of (save_recording env fs st)) = is_calibrated st"
  "stream (state_of (save_recording env fs st)) = stream st"
  by (cases env; simp add: save_recording_cases split: option.splits)+

lemma interval_check_not_due:
  "\<not> now - last_recording_time st \<ge> recording_interval st \<Longrightarrow>
   interval_check now env (st, lv) = Returns (st, lv)"
  by (simp add: interval_check_def)

lemma interval_check_due:
  "now - last_recording_time st \<ge> recording_interval st \<Longrightarrow>
   interval_check now env (st, lv) =
     (if temp_frames lv = [] then
        Returns (st\<lparr>last_recording_time := now\<rparr>,
                 lv\<lparr>temp_frames := [], record_start_time := now\<rparr>)
      else
        (case save_recording env (temp_frames lv) st of
           Returns s \<Rightarrow> Returns (s\<lparr>last_recording_time := now\<rparr>,
                                  lv\<lparr>temp_frames := [], record_start_time := now\<rparr>)
         | Raises e s \<Rightarrow> Raises e (s, lv)))"
  by (simp add: interval_check_def then_do_def split: outcome.splits)

lemma read_and_detect_env:
  "audio_queue (fst (snd (state_of (read_and_detect renv (st, lv))))) = audio_queue st"
  "files (fst (snd (state_of (read_and_detect renv (st, lv))))) = files st"
  "is_calibrated (fst (snd (state_of (read_and_detect renv (st, lv))))) = is_calibrated st"
  by (simp_all add: read_and_detect_def detect_def Let_def
      split: option.splits read_env.splits filter_env.splits)

lemma listen_iteration_returns:
  "listen_iteration now senv renv ls =
     Returns (case interval_check now senv ls of
                Raises e (s, l) \<Rightarrow> (False, s, l)
              | Returns (s, l) \<Rightarrow> state_of (read_and_detect renv (s, l)))"
proof (cases "interval_check now senv ls")
  case (Returns x)
  then show ?thesis
    by (cases x; cases "read_and_detect renv x")
       (simp_all add: listen_iteration_def try_except_def split: exn.splits)
next
  case (Raises e x)
  then show ?thesis
    by (cases x) (simp add: listen_iteration_def try_except_def split: exn.splits)
qed



lemma started_recorder_eq:
  "started_recorder = default_recorder\<lparr>p := Some 1, stream := Some 2\<rparr>"
  by (simp add: started_recorder_def start_listening_def try_except_def)







lemma interval_check_frame:
  "threshold (fst (state_of (interval_check now senv (st, lv)))) = threshold st"
  "noise_floor (fst (state_of (interval_check now senv (st, lv)))) = noise_floor st"
  "consecutive_speech_frames (fst (state_of (interval_check now senv (st, lv)))) =
     consecutive_speech_frames st"
  "speech_frames_threshold (fst (state_of (interval_check now senv (st, lv)))) =
     speech_frames_threshold st"
  "is_calibrated (fst (state_of (interval_check now senv (st, lv)))) = is_calibrated st"
  using save_recording_frame [of senv "temp_frames lv" st]
  by (cases "now - last_recording_time st \<ge> recording_interval st";
      cases "save_recording senv (temp_frames lv) st";
      simp add: interval_check_due interval_check_not_due)+

text \<open>The detector inside the loop: an iteration that reads a block and gets its peak
  volume reports exactly what \<^const>\<open>detect\<close> reports, on the threshold and the counter
  the iteration started with.\<close>

lemma interval_check_stream:
  "stream (fst (state_of (interval_check now senv (st, lv)))) = stream st"
  using save_recording_frame(6) [of senv "temp_frames lv" st]
  by (cases "now - last_recording_time st \<ge> recording_interval st";
      cases "save_recording senv (temp_frames lv) st";
      simp add: interval_check_due interval_check_not_due)

lemma listen_iteration_detects:
  assumes "stream st = Some sid" and "interval_check now senv (st, lv) = Returns (s, l)"
  shows "listen_iteration now senv (ReadOk data (Peak v)) (st, lv) =
           Returns (fst (detect v s), snd (detect v s), l\<lparr>temp_frames := temp_frames l @ [data]\<rparr>)
         \<and> threshold s = threshold st
         \<and> speech_frames_threshold s = speech_frames_threshold st
         \<and> consecutive_speech_frames s = consecutive_speech_frames st"
proof -
  from interval_check_stream [of now senv st lv] assms have "stream s = Some sid" by simp
  then have "read_and_detect (ReadOk data (Peak v)) (s, l) =
      Returns (fst (detect v s), snd (detect v s), l\<lparr>temp_frames := temp_frames l @ [data]\<rparr>)"
    by (simp add: read_and_detect_def Let_def split: prod.splits)
  with assms(2) interval_check_frame(1,3,4) [of now senv st lv] show ?thesis
    by (simp add: listen_iteration_returns)
qed

text \<open>
  The interval check at the boundary: the noise floor, the threshold and the speech counter
  are what they were, and when \<^verbatim>\<open>_save_recording\<close> is skipped or returns (having
  written the file or caught a write error) the buffer is empty and the timers are this
  iteration's clock reading.
\<close>

lemma interval_check_completed_flush:
  "now - last_recording_time st \<ge> recording_interval st \<Longrightarrow>
   threshold (fst (state_of (interval_check now senv (st, lv)))) = threshold st \<and>
   noise_floor (fst (state_of (interval_check now senv (st, lv)))) = noise_floor st \<and>
   consecutive_speech_frames (fst (state_of (interval_check now senv (st, lv)))) =
     consecutive_speech_frames st \<and>
   (\<not> (temp_frames lv \<noteq> [] \<and> senv = TempFileFails) \<longrightarrow>
      (\<exists>s l. interval_check now senv (st, lv) = Returns (s, l) \<and>
             temp_frames l = [] \<and> last_recording_time s = now \<and> record_start_time l = now))"
proof (intro conjI impI)
  assume due: "now - last_recording_time st \<ge> recording_interval st"
    and ok: "\<not> (temp_frames lv \<noteq> [] \<and> senv = TempFileFails)"
  show "\<exists>s l. interval_check now senv (st, lv) = Returns (s, l) \<and>
             temp_frames l = [] \<and> last_recording_time s = now \<and> record_start_time l = now"
  proof (cases "temp_frames lv = []")
    case True
    with due show ?thesis by (simp add: interval_check_due)
  next
    case False
    with ok have "senv \<noteq> TempFileFails" by simp
    with due False show ?thesis
      by (cases senv) (simp_all add: interval_check_due save_recording_cases split: option.splits)
  qed
qed (simp_all add: interval_check_frame)

text \<open>
  Claim C7, evaluated on the code. The boundary is reached with one block buffered and
  \<^verbatim>\<open>NamedTemporaryFile\<close> raises: the handler of \<^verbatim>\<open>_save_recording\<close> reads the
  unassigned \<^verbatim>\<open>temp_file\<close>, the \<^verbatim>\<open>UnboundLocalError\<close> leaves the function, and the reset
  of lines 155--157 is skipped. The loop's handler catches it, so the iteration ends with the
  buffer still holding the block and the interval timer still at its old value; the block
  offered by the device in this iteration is not read.
\<close>

theorem flush_temp_file_failure_skips_reset:
  "13 - last_recording_time started_recorder \<ge> recording_interval started_recorder \<and>
   interval_check 13 TempFileFails
       (started_recorder, \<lparr>temp_frames = [[1, 2]], record_start_time = 0\<rparr>) =
     Raises UnboundLocalError
       (started_recorder, \<lparr>temp_frames = [[1, 2]], record_start_time = 0\<rparr>) \<and>
   listen_iteration 13 TempFileFails (ReadOk [3, 4] (Peak 7000))
       (started_recorder, \<lparr>temp_frames = [[1, 2]], record_start_time = 0\<rparr>) =
     Returns (False, started_recorder, \<lparr>temp_frames = [[1, 2]], record_start_time = 0\<rparr>) \<and>
   last_recording_time started_recorder = 0"
proof -
  have due: "13 - last_recording_time started_recorder \<ge> recording_interval started_recorder"
    and t: "last_recording_time started_recorder = 0"
    by (simp_all add: started_recorder_eq default_recorder_def init_def)
  have ic: "interval_check 13 TempFileFails
       (started_recorder, \<lparr>temp_frames = [[1, 2]], record_start_time = 0\<rparr>) =
     Raises UnboundLocalError
       (started_recorder, \<lparr>temp_frames = [[1, 2]], record_start_time = 0\<rparr>)"
    using due by (simp add: interval_check_due save_recording_cases)
  from due t ic show ?thesis by (simp add: listen_iteration_returns)
qed

section \<open>Calibration\<close>

lemma calibrate_iteration_returns:
  "\<exists>s. calibrate_iteration env st = Returns s \<and> threshold s = threshold st \<and>
       noise_floor s = noise_floor st \<and> calibration_period s = calibration_period st \<and>
       is_calibrated s = is_calibrated st \<and> stream s = stream st"
  by (simp add: calibrate_iteration_def try_except_def split: option.splits cal_env.splits)

lemma calibrate_loop_frame:
  "calibrate_loop t0 ticks st = Some r \<Longrightarrow>
   \<exists>s. r = Returns s \<and> threshold s = threshold st \<and> noise_floor s = noise_floor st \<and>
       calibration_period s = calibration_period st \<and> is_calibrated s = is_calibrated st"
proof (induction ticks arbitrary: st)
  case Nil
  then show ?case by simp
next
  case (Cons tick ticks)
  obtain now env where tick: "tick = (now, env)" by (cases tick)
  obtain s1 where s1: "calibrate_iteration env st = Returns s1" "threshold s1 = threshold st"
    "noise_floor s1 = noise_floor st" "calibration_period s1 = calibration_period st"
    "is_calibrated s1 = is_calibrated st"
    using calibrate_iteration_returns [of env st] by blast
  show ?case
  proof (cases "now - t0 < calibration_period st")
    case True
    with Cons.prems tick s1 have "calibrate_loop t0 ticks s1 = Some r" by simp
    from Cons.IH [OF this] s1 show ?thesis by simp
  next
    case False
    with Cons.prems tick show ?thesis by auto
  qed
qed

lemma calibrate_loop_total:
  "\<exists>tick\<in>set ticks. \<not> fst tick - t0 < calibration_period st \<Longrightarrow>
   \<exists>s. calibrate_loop t0 ticks st = Some (Returns s)"
proof (induction ticks arbitrary: st)
  case Nil
  then show ?case by simp
next
  case (Cons tick ticks)
  obtain now env where tick: "tick = (now, env)" by (cases tick)
  obtain s1 where s1: "calibrate_iteration env st = Returns s1"
    "calibration_period s1 = calibration_period st"
    using calibrate_iteration_returns [of env st] by blast
  show ?case
  proof (cases "now - t0 < calibration_period st")
    case True
    with Cons.prems tick have "\<exists>tick\<in>set ticks. \<not> fst tick - t0 < calibration_period s1"
      using s1 by auto
    from Cons.IH [OF this] True tick s1 show ?thesis by simp
  next
    case False
    with tick show ?thesis by simp
  qed
qed

lemma np_mean_replicate: "0 < n \<Longrightarrow> np_mean (replicate n a) = real_of_int a"
  by (simp add: np_mean_def sum_list_replicate)

lemma np_std_replicate: "0 < n \<Longrightarrow> np_std (replicate n a) = 0"
proof -
  assume n: "0 < n"
  have "map (\<lambda>x. (real_of_int x - np_mean (replicate n a))\<^sup>2) (replicate n a) = replicate n 0"
    using n by (simp add: np_mean_replicate)
  then show ?thesis by (simp add: np_std_def sum_list_replicate)
qed

lemma calibrate_finish_nonempty:
  "noise_calibration_samples st \<noteq> [] \<Longrightarrow>
   calibrate_finish st =
     (st\<lparr>noise_floor := np_mean (noise_calibration_samples st) +
                          2 * np_std (noise_calibration_samples st),
         threshold := max (threshold st)
                        ((np_mean (noise_calibration_samples st) +
                          2 * np_std (noise_calibration_samples st)) * 1.5),
         is_calibrated := True\<rparr>, [ListenerWaiting])"
  by (simp add: calibrate_finish_def Let_def)

lemma calibrate_finish_empty:
  "noise_calibration_samples st = [] \<Longrightarrow>
   calibrate_finish st = (st\<lparr>is_calibrated := True\<rparr>, [ListenerWaiting])"
  by (simp add: calibrate_finish_def)

text \<open>
  Claim C3. When the calibration loop ends with a non-empty sequence of samples, calibration
  sets the noise floor to the mean plus twice the standard deviation of the samples and the
  threshold to the maximum of the threshold it started with and 1.5 times the noise floor; in
  particular, for \<open>n\<close> samples all equal to \<open>a\<close> the noise floor is \<open>a\<close> and the threshold
  is the maximum of the initial threshold and \<open>1.5 a\<close>.
\<close>

theorem calibration_noise_floor_and_threshold:
  assumes "calibrate_loop t0 ticks st = Some (Returns s1)"
    and "noise_calibration_samples s1 \<noteq> []"
  shows "\<exists>s. calibrate_noise t0 ticks st = Some (Returns (s, [ListenerWaiting])) \<and>
     noise_floor s = np_mean (noise_calibration_samples s1) +
                     2 * np_std (noise_calibration_samples s1) \<and>
     threshold s = max (threshold st) (noise_floor s * 1.5) \<and>
     (\<forall>n a. noise_calibration_samples s1 = replicate n a \<longrightarrow>
        noise_floor s = real_of_int a \<and>
        threshold s = max (threshold st) (real_of_int a * 1.5))"
proof -
  let ?xs = "noise_calibration_samples s1"
  let ?s = "fst (calibrate_finish s1)"
  from calibrate_loop_frame [OF assms(1)] have thr: "threshold s1 = threshold st" by simp
  have run: "calibrate_noise t0 ticks st = Some (Returns (?s, [ListenerWaiting]))"
    using assms by (simp add: calibrate_noise_def calibrate_finish_nonempty)
  have nf: "noise_floor ?s = np_mean ?xs + 2 * np_std ?xs"
    using assms(2) by (simp add: calibrate_finish_nonempty)
  have th: "threshold ?s = max (threshold st) (noise_floor ?s * 1.5)"
    using assms(2) thr by (simp add: calibrate_finish_nonempty)
  have "noise_floor ?s = real_of_int a" if "?xs = replicate n a" for n a
  proof -
    from that assms(2) have "0 < n" by (cases n) auto
    with that nf show ?thesis by (simp add: np_mean_replicate np_std_replicate)
  qed
  with run nf th show ?thesis by metis
qed

theorem calibration_noise_floor_and_threshold_witness:
  "calibrate_loop 0 [(1, CalSample 40), (2, CalSample 40), (4, CalInactive)] started_recorder =
     Some (Returns (started_recorder\<lparr>noise_calibration_samples := [40, 40]\<rparr>)) \<and>
   [40, 40 :: int] \<noteq> [] \<and>
   (\<exists>s. calibrate_noise 0 [(1, CalSample 40), (2, CalSample 40), (4, CalInactive)] started_recorder =
          Some (Returns (s, [ListenerWaiting])) \<and>
        noise_floor s = 40 \<and> threshold s = 6000)"
proof -
  have l: "calibrate_loop 0 [(1, CalSample 40), (2, CalSample 40), (4, CalInactive)] started_recorder =
     Some (Returns (started_recorder\<lparr>noise_calibration_samples := [40, 40]\<rparr>))"
    by (simp add: calibrate_iteration_def try_except_def started_recorder_eq
          default_recorder_def init_def)
  have r: "[40, 40 :: int] = replicate 2 40" by (simp add: numeral_2_eq_2)
  have t: "threshold started_recorder = 6000"
    by (simp add: started_recorder_eq default_recorder_def init_def)
  from calibration_noise_floor_and_threshold [OF l] r t l show ?thesis by auto
qed

text \<open>
  Claim C6. Once the clock leaves the calibration period the calibration loop ends without
  raising; if it ends with no sample collected, \<^verbatim>\<open>_calibrate_noise\<close> returns with the
  threshold and the noise floor unchanged, the recorder marked calibrated, and the listening
  thread started, which then passes its wait for \<^verbatim>\<open>is_calibrated\<close> at once.
\<close>

theorem calibration_without_samples_keeps_default:
  assumes "\<exists>tick\<in>set ticks. \<not> fst tick - t0 < calibration_period st"
  shows "\<exists>s1. calibrate_loop t0 ticks st = Some (Returns s1) \<and>
     (noise_calibration_samples s1 = [] \<longrightarrow>
        (\<exists>s. calibrate_noise t0 ticks st = Some (Returns (s, [ListenerWaiting])) \<and>
             threshold s = threshold st \<and> noise_floor s = noise_floor st \<and>
             is_calibrated s \<and> (\<forall>t1 t2. listen_enter t1 t2 s \<noteq> None)))"
proof -
  from calibrate_loop_total [OF assms] obtain s1 where
    l: "calibrate_loop t0 ticks st = Some (Returns s1)" by blast
  from calibrate_loop_frame [OF l] have
    fr: "threshold s1 = threshold st" "noise_floor s1 = noise_floor st" by simp_all
  have "\<exists>s. calibrate_noise t0 ticks st = Some (Returns (s, [ListenerWaiting])) \<and>
             threshold s = threshold st \<and> noise_floor s = noise_floor st \<and>
             is_calibrated s \<and> (\<forall>t1 t2. listen_enter t1 t2 s \<noteq> None)"
    if "noise_calibration_samples s1 = []"
    using that l fr
    by (simp add: calibrate_noise_def calibrate_finish_empty listen_enter_def)
  with l show ?thesis by blast
qed

theorem calibration_without_samples_keeps_default_witness:
  "\<not> fst (4 :: real, CalInactive) - 0 < calibration_period started_recorder \<and>
   calibrate_loop 0 [(1, CalReadFails IOError), (2, CalInactive), (4, CalInactive)] started_recorder =
     Some (Returns started_recorder) \<and>
   noise_calibration_samples started_recorder = [] \<and>
   (\<exists>s. calibrate_noise 0 [(1, CalReadFails IOError), (2, CalInactive), (4, CalInactive)]
          started_recorder = Some (Returns (s, [ListenerWaiting])) \<and>
        threshold s = 6000 \<and> noise_floor s = 0 \<and> is_calibrated s \<and>
        listen_enter 5 5 s \<noteq> None)"
proof -
  have h: "\<exists>tick\<in>set [(1, CalReadFails IOError), (2, CalInactive), (4 :: real, CalInactive)].
      \<not> fst tick - 0 < calibration_period started_recorder"
    by (simp add: started_recorder_eq default_recorder_def init_def)
  have l: "calibrate_loop 0 [(1, CalReadFails IOError), (2, CalInactive), (4, CalInactive)] started_recorder =
     Some (Returns started_recorder)"
    by (simp add: calibrate_iteration_def try_except_def started_recorder_eq
          default_recorder_def init_def)
  have t: "threshold started_recorder = 6000" "noise_floor started_recorder = 0"
    "noise_calibration_samples started_recorder = []"
    "calibration_period started_recorder = 3"
    by (simp_all add: started_recorder_eq default_recorder_def init_def)
  from calibration_without_samples_keeps_default [OF h] l t show ?thesis by auto
qed

section \<open>Starting and stopping\<close>

lemma stop_release_eq:
  "stop_release env st =
     Returns (st\<lparr>dev_calls := dev_calls st @
        (case stream st of
           None \<Rightarrow> []
         | Some sid \<Rightarrow> StreamStop sid # (if stop_stream_raises env then [] else [StreamClose sid])) @
        (case p st of None \<Rightarrow> [] | Some pa \<Rightarrow> [PaTerminate pa])\<rparr>)"
  by (simp add: stop_release_def device_call_def then_do_def try_except_def Let_def
      split: option.splits)

lemma stop_eq:
  "stop env st =
     Returns (st\<lparr>running := False, dev_calls := dev_calls st @
        (case stream st of
           None \<Rightarrow> []
         | Some sid \<Rightarrow> StreamStop sid # (if stop_stream_raises env then [] else [StreamClose sid])) @
        (case p st of None \<Rightarrow> [] | Some pa \<Rightarrow> [PaTerminate pa])\<rparr>)"
  by (simp add: stop_def stop_signal_def stop_release_eq then_do_def)

text \<open>
  Claim C4, as amended. Calling \<^verbatim>\<open>stop\<close> twice raises no exception in either call and
  leaves \<^verbatim>\<open>running\<close> false, \<^verbatim>\<open>self.stream\<close> and \<^verbatim>\<open>self.p\<close> as they were; the second
  call makes the device calls again: \<^verbatim>\<open>stop_stream\<close> on the same stream, then, unless that
  raised, \<^verbatim>\<open>close\<close> on it, then \<^verbatim>\<open>terminate\<close>. What the device raises is caught.
\<close>

theorem stop_twice_returns_and_calls_close_again:
  "\<exists>s1 s2. stop env1 st = Returns s1 \<and> stop env2 s1 = Returns s2 \<and>
     \<not> running s1 \<and> \<not> running s2 \<and> stream s2 = stream st \<and> p s2 = p st \<and>
     (\<forall>sid. stream st = Some sid \<longrightarrow>
        dev_calls s2 = dev_calls s1 @
          StreamStop sid # (if stop_stream_raises env2 then [] else [StreamClose sid]) @
          (case p st of None \<Rightarrow> [] | Some pa \<Rightarrow> [PaTerminate pa]))"
  by (simp add: stop_eq)

theorem stop_twice_returns_and_calls_close_again_witness:
  "stream started_recorder = Some 2 \<and>
   (\<exists>s1 s2.
      stop \<lparr>stop_stream_raises = False, close_raises = False, terminate_raises = False\<rparr>
        started_recorder = Returns s1 \<and>
      stop \<lparr>stop_stream_raises = False, close_raises = True, terminate_raises = False\<rparr> s1 =
        Returns s2 \<and>
      dev_calls s2 = dev_calls s1 @ [StreamStop 2, StreamClose 2, PaTerminate 1])"
proof -
  have h: "stream started_recorder = Some 2" "p started_recorder = Some 1"
    by (simp_all add: started_recorder_eq)
  from stop_twice_returns_and_calls_close_again [of "\<lparr>stop_stream_raises = False, close_raises = False, terminate_raises = False\<rparr>"
       started_recorder
       "\<lparr>stop_stream_raises = False, close_raises = True, terminate_raises = False\<rparr>"] h
  show ?thesis by auto
qed

text \<open>
  Claim C4 as stated fails on a started recorder: across two calls of \<^verbatim>\<open>stop\<close>, with a
  device that raises on the second \<^verbatim>\<open>close\<close>, \<^verbatim>\<open>close\<close> is called twice on the stream.
\<close>

theorem stop_twice_closes_stream_twice:
  "close_calls 2
     (state_of (stop \<lparr>stop_stream_raises = False, close_raises = True, terminate_raises = False\<rparr>
        (state_of (stop \<lparr>stop_stream_raises = False, close_raises = False, terminate_raises = False\<rparr>
           started_recorder)))) = 2"
  by (simp add: stop_eq close_calls_def started_recorder_eq default_recorder_def init_def)

text \<open>
  Claim C5, evaluated on the code. When \<^verbatim>\<open>open\<close> raises, \<^verbatim>\<open>start_listening\<close> catches the
  exception, terminates the PyAudio object and returns normally: no exception reaches the
  caller, no stream is stored and no thread is started.
\<close>

theorem start_listening_open_failure_returns_normally:
  "start_listening (OpenFails pa) False st =
     Returns (st\<lparr>p := Some pa, dev_calls := dev_calls st @ [PaTerminate pa]\<rparr>, []) \<and>
   \<not> raised (start_listening (OpenFails pa) False st)"
  by (simp add: start_listening_def try_except_def device_call_def)

section \<open>Capture begins only after calibration\<close>

lemma start_listening_calibrated:
  "is_calibrated (fst (state_of (start_listening env tr st))) = is_calibrated st"
  by (cases env)
     (simp_all add: start_listening_def try_except_def device_call_def Let_def
        split: option.splits)

lemma start_listening_threads:
  "\<not> capturing th" if "th \<in> set (snd (state_of (start_listening env tr st)))"
  using that
  by (cases env)
     (simp_all add: start_listening_def try_except_def device_call_def Let_def capturing_def
        split: option.splits if_splits)

lemma calibrate_iteration_calibrated:
  "is_calibrated (state_of (calibrate_iteration env st)) = is_calibrated st"
  using calibrate_iteration_returns [of env st] by auto

lemma calibrate_finish_calibrated:
  "is_calibrated (fst (calibrate_finish st))" "snd (calibrate_finish st) = [ListenerWaiting]"
  by (simp_all add: calibrate_finish_def Let_def)

lemma listen_enter_calibrated:
  "listen_enter t1 t2 st = Some (s, lv) \<Longrightarrow> is_calibrated st \<and> is_calibrated s"
  by (auto simp add: listen_enter_def split: if_splits)

lemma listen_iteration_calibrated:
  "is_calibrated (fst (snd (state_of (listen_iteration now senv renv (st, lv))))) = is_calibrated st"
proof (cases "interval_check now senv (st, lv)")
  case (Returns x)
  obtain s l where x: "x = (s, l)" by (cases x)
  from interval_check_frame(5) [of now senv st lv] Returns x
  have "is_calibrated s = is_calibrated st" by simp
  with Returns x read_and_detect_env(3) [of renv s l] show ?thesis
    by (simp add: listen_iteration_returns)
next
  case (Raises e x)
  obtain s l where x: "x = (s, l)" by (cases x)
  from interval_check_frame(5) [of now senv st lv] Raises x
  show ?thesis by (simp add: listen_iteration_returns)
qed

lemma stop_calibrated:
  "is_calibrated (state_of (stop_signal st)) = is_calibrated st"
  "is_calibrated (state_of (stop_release env st)) = is_calibrated st"
  by (simp_all add: stop_signal_def stop_release_eq)

lemma set_update_capturing:
  "th \<in> set (ths[i := x]) \<Longrightarrow> capturing th \<Longrightarrow> \<not> capturing x \<Longrightarrow> th \<in> set ths"
  using set_update_subset_insert [of ths i x] by auto

lemma sys_step_calibrated_mono:
  assumes "sys_step ev (st, ths) = Some (st', ths')" and "is_calibrated st"
  shows "is_calibrated st'"
proof (cases ev)
  case (EvStart env tr)
  with assms start_listening_calibrated [of env tr st] show ?thesis
    by (auto split: prod.splits)
next
  case (EvCalBegin i t0)
  with assms show ?thesis by (auto split: if_splits)
next
  case (EvCalTick i now env)
  with assms calibrate_iteration_calibrated [of env st] calibrate_finish_calibrated(1) [of st]
  show ?thesis
    by (auto split: if_splits thread.splits outcome.splits prod.splits)
next
  case (EvListenPoll i t1 t2)
  with assms show ?thesis
    by (auto split: if_splits option.splits dest: listen_enter_calibrated)
next
  case (EvListenTick i now senv renv)
  show ?thesis
  proof (cases "i < length ths")
    case False
    with assms EvListenTick show ?thesis by simp
  next
    case True
    show ?thesis
    proof (cases "ths ! i")
      case (ListenerCapturing lv)
      with assms EvListenTick True listen_iteration_calibrated [of now senv renv st lv]
      show ?thesis
        by (auto split: if_splits outcome.splits prod.splits)
    qed (use assms EvListenTick True in simp_all)
  qed
next
  case EvStopSignal
  with assms stop_calibrated(1) [of st] show ?thesis by auto
next
  case (EvStopRelease env)
  with assms stop_calibrated(2) [of env st] show ?thesis by auto
qed

lemma sys_step_becomes_calibrated:
  assumes "sys_step ev (st, ths) = Some (st', ths')" and "\<not> is_calibrated st"
    and "is_calibrated st'"
  shows "finishes_calibration ev (st, ths)"
proof (cases ev)
  case (EvStart env tr)
  with assms start_listening_calibrated [of env tr st] show ?thesis
    by (auto split: prod.splits)
next
  case (EvCalBegin i t0)
  with assms show ?thesis by (auto split: if_splits)
next
  case (EvCalTick i now env)
  with assms calibrate_iteration_calibrated [of env st]
  show ?thesis
    by (auto split: if_splits thread.splits outcome.splits prod.splits)
next
  case (EvListenPoll i t1 t2)
  with assms show ?thesis
    by (auto split: if_splits option.splits dest: listen_enter_calibrated)
next
  case (EvListenTick i now senv renv)
  show ?thesis
  proof (cases "i < length ths")
    case False
    with assms EvListenTick show ?thesis by simp
  next
    case True
    show ?thesis
    proof (cases "ths ! i")
      case (ListenerCapturing lv)
      with assms EvListenTick True listen_iteration_calibrated [of now senv renv st lv]
      show ?thesis
        by (auto split: if_splits outcome.splits prod.splits)
    qed (use assms EvListenTick True in simp_all)
  qed
next
  case EvStopSignal
  with assms stop_calibrated(1) [of st] show ?thesis by auto
next
  case (EvStopRelease env)
  with assms stop_calibrated(2) [of env st] show ?thesis by auto
qed

lemma sys_step_capturing:
  assumes "sys_step ev (st, ths) = Some (st', ths')"
    and "\<forall>th\<in>set ths. capturing th \<longrightarrow> is_calibrated st"
    and "th \<in> set ths'" and "capturing th"
  shows "is_calibrated st'"
proof (cases "is_calibrated st")
  case True
  with assms(1) show ?thesis by (rule sys_step_calibrated_mono)
next
  case uncal: False
  with assms(2) have none: "\<forall>th\<in>set ths. \<not> capturing th" by blast
  show ?thesis
  proof (cases ev)
    case (EvStart env tr)
    with assms(1) have "ths' = ths @ snd (state_of (start_listening env tr st))"
      by (auto split: prod.splits)
    with assms(3,4) none start_listening_threads [of th env tr st] show ?thesis by auto
  next
    case (EvCalBegin i t0)
    with assms(1) have "ths' = ths[i := Calibrator t0]" by (auto split: if_splits)
    with assms(3,4) none set_update_capturing [of th ths i "Calibrator t0"] show ?thesis
      by (auto simp add: capturing_def)
  next
    case (EvCalTick i now env)
    with assms(1) have "ths' = ths \<or> ths' = ths[i := Exited] \<or> ths' = ths[i := Exited] @ [ListenerWaiting]"
      using calibrate_finish_calibrated(2) [of st]
      by (auto split: if_splits thread.splits outcome.splits prod.splits)
    with assms(3,4) none set_update_capturing [of th ths i Exited] show ?thesis
      by (auto simp add: capturing_def)
  next
    case (EvListenPoll i t1 t2)
    with assms(1) uncal have "ths' = ths"
      by (auto simp add: listen_enter_def split: if_splits)
    with assms(3,4) none show ?thesis by auto
  next
    case (EvListenTick i now senv renv)
    with assms(1) have "i < length ths \<and> capturing (ths ! i)"
      by (auto simp add: capturing_def split: if_splits thread.splits)
    then have "ths ! i \<in> set ths \<and> capturing (ths ! i)" by simp
    with none show ?thesis by blast
  next
    case EvStopSignal
    with assms(1) have "ths' = ths" by auto
    with assms(3,4) none show ?thesis by auto
  next
    case (EvStopRelease env)
    with assms(1) have "ths' = ths" by auto
    with assms(3,4) none show ?thesis by auto
  qed
qed

lemma run_snoc:
  "run (evs @ [ev]) sys = (case run evs sys of None \<Rightarrow> None | Some sys' \<Rightarrow> sys_step ev sys')"
  by (induction evs arbitrary: sys) (auto split: option.splits)

lemma run_append:
  "run (evs @ evs') sys = (case run evs sys of None \<Rightarrow> None | Some sys' \<Rightarrow> run evs' sys')"
  by (induction evs arbitrary: sys) (auto split: option.splits)

lemma run_invariant:
  assumes "run evs (st0, []) = Some (st, ths)" and "\<not> is_calibrated st0"
  shows "(\<forall>th\<in>set ths. capturing th \<longrightarrow> is_calibrated st) \<and>
         (is_calibrated st \<longrightarrow>
            (\<exists>pre ev post sys. evs = pre @ ev # post \<and> run pre (st0, []) = Some sys \<and>
               \<not> is_calibrated (fst sys) \<and> finishes_calibration ev sys))"
  using assms(1)
proof (induction evs arbitrary: st ths rule: rev_induct)
  case Nil
  with assms(2) show ?case by simp
next
  case (snoc ev evs)
  from snoc.prems obtain st1 ths1 where
    r: "run evs (st0, []) = Some (st1, ths1)" and s: "sys_step ev (st1, ths1) = Some (st, ths)"
    by (auto simp add: run_snoc split: option.splits)
  from snoc.IH [OF r] have
    inv: "\<forall>th\<in>set ths1. capturing th \<longrightarrow> is_calibrated st1" and
    tr: "is_calibrated st1 \<longrightarrow>
            (\<exists>pre ev post sys. evs = pre @ ev # post \<and> run pre (st0, []) = Some sys \<and>
               \<not> is_calibrated (fst sys) \<and> finishes_calibration ev sys)"
    by blast+
  have a: "\<forall>th\<in>set ths. capturing th \<longrightarrow> is_calibrated st"
    using sys_step_capturing [OF s inv] by blast
  have b: "\<exists>pre ev' post sys. evs @ [ev] = pre @ ev' # post \<and> run pre (st0, []) = Some sys \<and>
               \<not> is_calibrated (fst sys) \<and> finishes_calibration ev' sys"
    if c: "is_calibrated st"
  proof (cases "is_calibrated st1")
    case True
    with tr obtain pre ev' post sys where "evs = pre @ ev' # post"
      "run pre (st0, []) = Some sys" "\<not> is_calibrated (fst sys)" "finishes_calibration ev' sys"
      by blast
    then have "evs @ [ev] = pre @ ev' # (post @ [ev]) \<and> run pre (st0, []) = Some sys \<and>
       \<not> is_calibrated (fst sys) \<and> finishes_calibration ev' sys" by simp
    then show ?thesis by blast
  next
    case False
    from sys_step_becomes_calibrated [OF s False c]
    have "evs @ [ev] = evs @ ev # [] \<and> run evs (st0, []) = Some (st1, ths1) \<and>
       \<not> is_calibrated (fst (st1, ths1)) \<and> finishes_calibration ev (st1, ths1)"
      using r False by simp
    then show ?thesis by blast
  qed
  from a b show ?case by blast
qed

text \<open>
  Claim C9. In every run of the threads from a freshly constructed recorder, whenever some
  thread is in the capture loop the recorder is marked calibrated, and earlier in the run
  there is a step, taken with the recorder not yet calibrated, in which a calibration thread
  left its sampling loop and ran the end of \<^verbatim>\<open>_calibrate_noise\<close> (lines 93--112).
\<close>

theorem capture_only_after_calibration:
  assumes "run evs (init thr cs fw ch rt iv, []) = Some (st, ths)"
    and "th \<in> set ths" and "capturing th"
  shows "is_calibrated st \<and>
     (\<exists>pre ev post sys. evs = pre @ ev # post \<and>
        run pre (init thr cs fw ch rt iv, []) = Some sys \<and>
        \<not> is_calibrated (fst sys) \<and> finishes_calibration ev sys \<and>
        (\<exists>sys'. sys_step ev sys = Some sys' \<and> fst sys' = fst (calibrate_finish (fst sys))))"
proof -
  have i: "\<not> is_calibrated (init thr cs fw ch rt iv)" by (simp add: init_def)
  from run_invariant [OF assms(1) i] assms(2,3) have c: "is_calibrated st" by blast
  with run_invariant [OF assms(1) i] obtain pre ev post sys where
    d: "evs = pre @ ev # post" "run pre (init thr cs fw ch rt iv, []) = Some sys"
       "\<not> is_calibrated (fst sys)" "finishes_calibration ev sys"
    by blast
  obtain s1 t1 where sys: "sys = (s1, t1)" by (cases sys)
  from d(4) sys obtain i now env where ev: "ev = EvCalTick i now env"
    by (cases ev) simp_all
  from d(4) sys ev have "\<exists>sys'. sys_step ev sys = Some sys' \<and> fst sys' = fst (calibrate_finish (fst sys))"
    by (auto split: thread.splits prod.splits)
  with c d show ?thesis by blast
qed

theorem capture_only_after_calibration_witness:
  "\<exists>st ths th.
     run [EvStart (StartOk 1 2) False, EvCalBegin 0 0, EvCalTick 0 4 CalInactive, EvListenPoll 1 5 5]
       (init 6000 1024 2 1 44100 10, []) = Some (st, ths) \<and>
     th \<in> set ths \<and> capturing th \<and> is_calibrated st \<and>
     (\<exists>pre ev post sys.
        [EvStart (StartOk 1 2) False, EvCalBegin 0 0, EvCalTick 0 4 CalInactive, EvListenPoll 1 5 5] =
          pre @ ev # post \<and>
        run pre (init 6000 1024 2 1 44100 10, []) = Some sys \<and> finishes_calibration ev sys)"
proof -
  let ?evs = "[EvStart (StartOk 1 2) False, EvCalBegin 0 0, EvCalTick 0 4 CalInactive,
               EvListenPoll 1 5 5]"
  let ?st = "(init 6000 1024 2 1 44100 10)\<lparr>p := Some 1, stream := Some 2,
               is_calibrated := True, last_recording_time := 5\<rparr>"
  let ?ths = "[Exited, ListenerCapturing \<lparr>temp_frames = [], record_start_time = 5\<rparr>]"
  have r: "run ?evs (init 6000 1024 2 1 44100 10, []) = Some (?st, ?ths)"
    by (simp add: start_listening_def try_except_def calibrate_finish_def listen_enter_def
          init_def)
  have m: "ListenerCapturing \<lparr>temp_frames = [], record_start_time = 5\<rparr> \<in> set ?ths" by simp
  have c: "capturing (ListenerCapturing \<lparr>temp_frames = [], record_start_time = 5\<rparr>)"
    by (simp add: capturing_def)
  from capture_only_after_calibration [OF r m c] r m c show ?thesis by blast
qed

end
